theory Spec2Isabelle
  imports Complex_Main "HOL-Library.Sublist"
begin

section \<open>Text: characters, case conversion, whitespace\<close>

text \<open>
  A Python \<open>str\<close> is modelled as a \<open>string\<close> (a list of 8-bit characters). Case
  conversion and case-insensitive comparison are the ASCII ones: \<open>a..z\<close> and \<open>A..Z\<close>
  are 32 apart, every other character is its own upper and lower case. (Python's Unicode
  tables additionally relate a few characters beyond ASCII, such as U+0131, to ASCII
  letters; text beyond ASCII is outside this model.)
\<close>

definition upper_char :: "char \<Rightarrow> char" where
  "upper_char c =
     (let n = (of_char c :: nat) in if 97 \<le> n \<and> n \<le> 122 then char_of (n - 32) else c)"

definition lower_char :: "char \<Rightarrow> char" where
  "lower_char c =
     (let n = (of_char c :: nat) in if 65 \<le> n \<and> n \<le> 90 then char_of (n + 32) else c)"

text \<open>\<open>str.upper()\<close> and \<open>str.lower()\<close>.\<close>

definition upper :: "string \<Rightarrow> string" where
  "upper s = map upper_char s"

definition lower :: "string \<Rightarrow> string" where
  "lower s = map lower_char s"

text \<open>
  \<open>str.isspace()\<close> on one ASCII character: tab, line feed, vertical tab, form feed,
  carriage return, the four separators \<open>0x1c..0x1f\<close> and the space.
\<close>

definition is_space :: "char \<Rightarrow> bool" where
  "is_space c =
     (let n = (of_char c :: nat) in (9 \<le> n \<and> n \<le> 13) \<or> (28 \<le> n \<and> n \<le> 32))"

text \<open>\<open>str.strip()\<close>: whitespace removed at both ends.\<close>

definition strip :: "string \<Rightarrow> string" where
  "strip s = rev (dropWhile is_space (rev (dropWhile is_space s)))"

text \<open>\<open>str.endswith(suffix)\<close>.\<close>

definition endswith :: "string \<Rightarrow> string \<Rightarrow> bool" where
  "endswith s suf = (length suf \<le> length s \<and> drop (length s - length suf) s = suf)"

text \<open>\<open>os.path.basename\<close> (POSIX): what follows the last slash.\<close>

definition basename :: "string \<Rightarrow> string" where
  "basename p = rev (takeWhile (\<lambda>c. c \<noteq> CHR ''/'') (rev p))"

text \<open>
  \<open>os.path.join(a, b)\<close> (POSIX) for two components: an absolute \<open>b\<close> replaces \<open>a\<close>;
  otherwise a slash is put between them unless \<open>a\<close> is empty or ends with one.
\<close>

definition path_join :: "string \<Rightarrow> string \<Rightarrow> string" where
  "path_join a b =
     (if b \<noteq> [] \<and> hd b = CHR ''/'' then b
      else if a = [] \<or> last a = CHR ''/'' then a @ b
      else a @ ''/'' @ b)"

section \<open>The severity classifier: \<open>LogCollector.extract_log_level\<close>\<close>

text \<open>
  Each of the four patterns has the shape \<open>\[?(A|B|...)\]?\<close> and is searched with
  \<open>re.IGNORECASE\<close>. A pattern is represented by the list of its alternatives.

  \<open>ci_prefix a s\<close>: the literal \<open>a\<close> matches at the start of \<open>s\<close>, ignoring case.
\<close>

fun ci_prefix :: "string \<Rightarrow> string \<Rightarrow> bool" where
  "ci_prefix [] s = True"
| "ci_prefix (p # ps) [] = False"
| "ci_prefix (p # ps) (c # cs) = (lower_char p = lower_char c \<and> ci_prefix ps cs)"

text \<open>
  The group \<open>(A|B|...)\<close> at the start of \<open>s\<close>: the alternatives are tried from left to
  right; the result is the text the first matching one consumed (\<open>match.group(1)\<close>).
\<close>

fun match_alts :: "string list \<Rightarrow> string \<Rightarrow> string option" where
  "match_alts [] s = None"
| "match_alts (a # as) s =
     (if ci_prefix a s then Some (take (length a) s) else match_alts as s)"

text \<open>
  The whole pattern at the start of \<open>s\<close>. The greedy \<open>\[?\<close> first consumes an opening
  bracket when there is one and backtracks to consuming nothing when the group fails
  behind it; the trailing \<open>\]?\<close> always succeeds and does not change the group.
\<close>

definition match_here :: "string list \<Rightarrow> string \<Rightarrow> string option" where
  "match_here alts s =
     (case s of
        [] \<Rightarrow> match_alts alts s
      | c # t \<Rightarrow>
          if c = CHR ''['' then
            (case match_alts alts t of Some g \<Rightarrow> Some g | None \<Rightarrow> match_alts alts s)
          else match_alts alts s)"

text \<open>\<open>re.search\<close>: the match at the leftmost position that has one.\<close>

fun re_search :: "string list \<Rightarrow> string \<Rightarrow> string option" where
  "re_search alts [] = match_here alts []"
| "re_search alts (c # cs) =
     (case match_here alts (c # cs) of Some g \<Rightarrow> Some g | None \<Rightarrow> re_search alts cs)"

definition patterns :: "string list list" where
  "patterns =
     [[''ERROR'', ''CRITICAL'', ''FATAL''],
      [''WARN'', ''WARNING''],
      [''INFO'', ''INFORMATION''],
      [''DEBUG'', ''TRACE'']]"

text \<open>
  The \<open>if/elif\<close> chain on the upper-cased group; \<open>None\<close> when no branch returns, in
  which case the \<open>for\<close> loop goes on with the next pattern.
\<close>

definition level_of_group :: "string \<Rightarrow> string option" where
  "level_of_group level =
     (if level \<in> set [''WARN'', ''WARNING''] then Some ''WARNING''
      else if level \<in> set [''INFO'', ''INFORMATION''] then Some ''INFO''
      else if level \<in> set [''ERROR'', ''CRITICAL'', ''FATAL''] then Some ''ERROR''
      else if level \<in> set [''DEBUG'', ''TRACE''] then Some ''DEBUG''
      else None)"

fun classify_patterns :: "string list list \<Rightarrow> string \<Rightarrow> string" where
  "classify_patterns [] log_line = ''UNKNOWN''"
| "classify_patterns (pattern # rest) log_line =
     (case re_search pattern log_line of
        Some g \<Rightarrow>
          (case level_of_group (upper g) of
             Some l \<Rightarrow> l
           | None \<Rightarrow> classify_patterns rest log_line)
      | None \<Rightarrow> classify_patterns rest log_line)"

definition extract_log_level :: "string \<Rightarrow> string" where
  "extract_log_level log_line = classify_patterns patterns log_line"

text \<open>
  The specification's reading of the classifier, for comparison with the code: a token
  is \<^emph>\<open>mentioned\<close> by a line when it occurs in the upper-cased line as a contiguous
  substring, with or without brackets around it.
\<close>

definition mentions :: "string \<Rightarrow> string \<Rightarrow> bool" where
  "mentions tok line = list_ex (prefix tok) (suffixes (upper line))"

definition spec_classify :: "string \<Rightarrow> string" where
  "spec_classify line =
     (if mentions ''ERROR'' line \<or> mentions ''CRITICAL'' line \<or> mentions ''FATAL'' line
        then ''ERROR''
      else if mentions ''WARN'' line \<or> mentions ''WARNING'' line then ''WARNING''
      else if mentions ''INFO'' line \<or> mentions ''INFORMATION'' line then ''INFO''
      else if mentions ''DEBUG'' line \<or> mentions ''TRACE'' line then ''DEBUG''
      else ''UNKNOWN'')"

section \<open>The bounded log store: \<open>LogCollector\<close>\<close>

text \<open>
  One log entry: the dictionary built by \<open>add_log_entry\<close> (its key \<open>file\<close> is the
  field \<open>file_name\<close>). The capture time \<open>datetime.now()\<close> is a reading of a clock;
  the model keeps a logical clock in the store, read and advanced at every append.
\<close>

record log_entry =
  timestamp :: nat
  file_name :: string
  full_path :: string
  message :: string
  level :: string

text \<open>
  \<open>log_entries\<close> is the \<open>deque(maxlen=max_entries)\<close>, oldest entry first;
  \<open>log_stats\<close> is the dictionary of counters.
\<close>

record LogCollector =
  max_entries :: nat
  log_entries :: "log_entry list"
  log_stats :: "string \<rightharpoonup> nat"
  clock :: nat

text \<open>
  \<open>deque.append\<close> on a deque with a \<open>maxlen\<close>: the element is appended on the right, and
  when the deque is then longer than \<open>maxlen\<close> the leftmost element is dropped.
\<close>

definition deque_append :: "nat \<Rightarrow> 'a list \<Rightarrow> 'a \<Rightarrow> 'a list" where
  "deque_append maxlen d x = (let d' = d @ [x] in if length d' > maxlen then tl d' else d')"

definition LogCollector_init :: "nat \<Rightarrow> LogCollector" where
  "LogCollector_init n =
     \<lparr>max_entries = n,
      log_entries = [],
      log_stats =
        [''total_entries'' \<mapsto> 0, ''error_count'' \<mapsto> 0, ''warning_count'' \<mapsto> 0,
         ''info_count'' \<mapsto> 0, ''debug_count'' \<mapsto> 0, ''unknown_count'' \<mapsto> 0],
      clock = 0\<rparr>"

text \<open>
  \<open>d[k] += 1\<close> on a key of the dictionary. Every key the code increments without a test
  is created by \<open>__init__\<close> and no key is ever removed, so the \<open>KeyError\<close> of a missing
  key cannot arise; the model leaves the dictionary as it is there.
\<close>

definition dict_incr :: "(string \<rightharpoonup> nat) \<Rightarrow> string \<Rightarrow> (string \<rightharpoonup> nat)" where
  "dict_incr d k = (case d k of Some n \<Rightarrow> d(k \<mapsto> n + 1) | None \<Rightarrow> d)"

definition add_log_entry :: "LogCollector \<Rightarrow> string \<Rightarrow> string \<Rightarrow> LogCollector" where
  "add_log_entry c file_path line =
     (let entry = \<lparr>timestamp = clock c, file_name = basename file_path, full_path = file_path,
                    message = line, level = extract_log_level line\<rparr>;
          stats1 = dict_incr (log_stats c) ''total_entries'';
          count_key = lower (level entry) @ ''_count'';
          stats2 = (if stats1 count_key \<noteq> None then dict_incr stats1 count_key else stats1)
      in c\<lparr>log_entries := deque_append (max_entries c) (log_entries c) entry,
            log_stats := stats2,
            clock := clock c + 1\<rparr>)"

text \<open>
  The slice \<open>xs[start:]\<close>: a negative \<open>start\<close> counts from the end, and is clamped to
  the start of the list.
\<close>

definition py_slice_from :: "int \<Rightarrow> 'a list \<Rightarrow> 'a list" where
  "py_slice_from start xs =
     (if start < 0 then drop (nat (int (length xs) + start)) xs else drop (nat start) xs)"

text \<open>
  \<open>get_recent_logs\<close> with both parameters bound. \<open>limit\<close> is an integer or \<open>None\<close>,
  \<open>level_filter\<close> a string or \<open>None\<close>; the tests \<open>if level_filter:\<close> and \<open>if limit:\<close>
  are Python's truth tests (\<open>None\<close>, the empty string and \<open>0\<close> are false).
\<close>

definition get_recent_logs :: "LogCollector \<Rightarrow> int option \<Rightarrow> string option \<Rightarrow> log_entry list" where
  "get_recent_logs c limit level_filter =
     (let logs = log_entries c;
          logs1 = (case level_filter of
                     None \<Rightarrow> logs
                   | Some f \<Rightarrow>
                       if f \<noteq> [] then filter (\<lambda>log. level log = upper f) logs else logs);
          logs2 = (case limit of
                     None \<Rightarrow> logs1
                   | Some n \<Rightarrow> if n \<noteq> 0 then py_slice_from (- n) logs1 else logs1)
      in logs2)"

text \<open>
  A call of \<open>get_recent_logs(self, limit=10, level_filter=None)\<close>: an argument the caller
  leaves out is bound to its default.
\<close>

datatype 'a arg = Omitted | Passed 'a

definition get_recent_logs_call ::
  "LogCollector \<Rightarrow> int option arg \<Rightarrow> string option arg \<Rightarrow> log_entry list" where
  "get_recent_logs_call c limit level_filter =
     get_recent_logs c
       (case limit of Omitted \<Rightarrow> Some 10 | Passed l \<Rightarrow> l)
       (case level_filter of Omitted \<Rightarrow> None | Passed f \<Rightarrow> f)"

definition get_log_stats :: "LogCollector \<Rightarrow> (string \<rightharpoonup> nat)" where
  "get_log_stats c = log_stats c"

text \<open>
  A run of appends from a fresh store, and the entry the \<open>i\<close>-th append of a run builds
  (the clock of a fresh store starts at 0).
\<close>

definition add_all :: "LogCollector \<Rightarrow> (string \<times> string) list \<Rightarrow> LogCollector" where
  "add_all c inputs = foldl (\<lambda>c (file_path, line). add_log_entry c file_path line) c inputs"

definition entry_of :: "nat \<Rightarrow> string \<times> string \<Rightarrow> log_entry" where
  "entry_of i inp =
     \<lparr>timestamp = i, file_name = basename (fst inp), full_path = fst inp,
      message = snd inp, level = extract_log_level (snd inp)\<rparr>"

definition entries_of :: "(string \<times> string) list \<Rightarrow> log_entry list" where
  "entries_of inputs = map (\<lambda>(i, inp). entry_of i inp) (enumerate 0 inputs)"

text \<open>A counter of the statistics dictionary, read as \<open>stats[key]\<close>.\<close>

definition counter :: "LogCollector \<Rightarrow> string \<Rightarrow> nat option" where
  "counter c key = get_log_stats c key"

section \<open>The log tailer: \<open>LogFileHandler\<close>\<close>

datatype py_exception =
  FileNotFoundError | PermissionError | NotADirectoryError | UnicodeDecodeError | OSError

text \<open>
  What the file system answers for one path at the time of a call: the result of
  \<open>os.path.getsize\<close>, of \<open>open\<close>, of \<open>f.seek(pos)\<close> and of \<open>f.readlines()\<close> with the file
  positioned at \<open>pos\<close>. Each may raise.
\<close>

record file_view =
  fv_getsize :: "py_exception + nat"
  fv_open :: "py_exception option"
  fv_seek :: "nat \<Rightarrow> py_exception option"
  fv_readlines :: "nat \<Rightarrow> py_exception + string list"

record filesystem =
  path_exists :: "string \<Rightarrow> bool"
  listdir :: "string \<Rightarrow> py_exception + string list"
  file_at :: "string \<Rightarrow> file_view"

text \<open>
  The handler with the store it feeds (\<open>self.log_collector\<close>, the same object as the
  application's) and the records written by \<open>logging.error\<close>, oldest first.
\<close>

record LogFileHandler =
  file_positions :: "string \<rightharpoonup> nat"
  log_collector :: LogCollector
  error_log :: "(string \<times> py_exception) list"

definition LogFileHandler_init :: "LogCollector \<Rightarrow> LogFileHandler" where
  "LogFileHandler_init c = \<lparr>file_positions = Map.empty, log_collector = c, error_log = []\<rparr>"

definition logging_error :: "LogFileHandler \<Rightarrow> string \<Rightarrow> py_exception \<Rightarrow> LogFileHandler" where
  "logging_error h file_path e = h\<lparr>error_log := error_log h @ [(file_path, e)]\<rparr>"

text \<open>
  The loop over the lines read, the same in \<open>process_log_file\<close> and in
  \<open>load_existing_logs\<close>: each line is stripped and, unless empty, appended to the store.
\<close>

fun ingest_lines :: "LogCollector \<Rightarrow> string \<Rightarrow> string list \<Rightarrow> LogCollector" where
  "ingest_lines c file_path [] = c"
| "ingest_lines c file_path (l # ls) =
     (let line = strip l in
      if line \<noteq> [] then ingest_lines (add_log_entry c file_path line) file_path ls
      else ingest_lines c file_path ls)"

text \<open>\<open>self.file_positions.get(file_path, 0)\<close>: a file not seen before is at offset 0.\<close>

definition tracked_offset :: "LogFileHandler \<Rightarrow> string \<Rightarrow> nat" where
  "tracked_offset h file_path = (case file_positions h file_path of None \<Rightarrow> 0 | Some p \<Rightarrow> p)"

text \<open>
  \<open>process_log_file\<close>. Every exception raised inside the \<open>try\<close> is logged by the handler
  and nothing else is done; the position is stored only after the lines were ingested.
\<close>

definition process_log_file :: "LogFileHandler \<Rightarrow> filesystem \<Rightarrow> string \<Rightarrow> LogFileHandler" where
  "process_log_file h fs file_path =
     (let v = file_at fs file_path in
      case fv_getsize v of
        Inl e \<Rightarrow> logging_error h file_path e
      | Inr current_size \<Rightarrow>
          let last_position = tracked_offset h file_path in
          if current_size > last_position then
            (case fv_open v of
               Some e \<Rightarrow> logging_error h file_path e
             | None \<Rightarrow>
                 (case fv_seek v last_position of
                    Some e \<Rightarrow> logging_error h file_path e
                  | None \<Rightarrow>
                      (case fv_readlines v last_position of
                         Inl e \<Rightarrow> logging_error h file_path e
                       | Inr new_lines \<Rightarrow>
                           h\<lparr>log_collector := ingest_lines (log_collector h) file_path new_lines,
                             file_positions := (file_positions h)(file_path \<mapsto> current_size)\<rparr>)))
          else h)"

record fs_event =
  is_directory :: bool
  src_path :: string

definition on_modified :: "LogFileHandler \<Rightarrow> filesystem \<Rightarrow> fs_event \<Rightarrow> LogFileHandler" where
  "on_modified h fs event =
     (if \<not> is_directory event \<and> endswith (src_path event) ''.log''
      then process_log_file h fs (src_path event) else h)"

section \<open>The bootstrap: \<open>LogMetricsCollector.load_existing_logs\<close>\<close>

text \<open>
  The body of the \<open>try\<close> for one file: the file is opened and read whole, and the last
  ten of its lines go through the ingest loop. An exception of \<open>open\<close> or \<open>readlines\<close> is
  logged. The handler's \<open>file_positions\<close> is not mentioned by the method.
\<close>

definition load_file :: "LogFileHandler \<Rightarrow> filesystem \<Rightarrow> string \<Rightarrow> LogFileHandler" where
  "load_file h fs file_path =
     (let v = file_at fs file_path in
      case fv_open v of
        Some e \<Rightarrow> logging_error h file_path e
      | None \<Rightarrow>
          (case fv_readlines v 0 of
             Inl e \<Rightarrow> logging_error h file_path e
           | Inr lines \<Rightarrow>
               h\<lparr>log_collector :=
                    ingest_lines (log_collector h) file_path (py_slice_from (- 10) lines)\<rparr>))"

text \<open>The loop over the names \<open>os.listdir(log_dir)\<close> returned.\<close>

fun load_dir :: "LogFileHandler \<Rightarrow> filesystem \<Rightarrow> string \<Rightarrow> string list \<Rightarrow> LogFileHandler" where
  "load_dir h fs log_dir [] = h"
| "load_dir h fs log_dir (filename # rest) =
     (if endswith filename ''.log''
      then load_dir (load_file h fs (path_join log_dir filename)) fs log_dir rest
      else load_dir h fs log_dir rest)"

text \<open>
  The loop over the configured directories. \<open>os.listdir\<close> stands outside the \<open>try\<close>: an
  exception it raises ends the method and is returned beside the state reached.
\<close>

fun load_existing_logs ::
  "LogFileHandler \<Rightarrow> filesystem \<Rightarrow> string list \<Rightarrow> LogFileHandler \<times> py_exception option" where
  "load_existing_logs h fs [] = (h, None)"
| "load_existing_logs h fs (log_dir # dirs) =
     (if path_exists fs log_dir then
        (case listdir fs log_dir of
           Inl e \<Rightarrow> (h, Some e)
         | Inr names \<Rightarrow> load_existing_logs (load_dir h fs log_dir names) fs dirs)
      else load_existing_logs h fs dirs)"

section \<open>Files with a given content\<close>

text \<open>
  A readable text file as the tailer sees it. Text mode translates \<open>\r\n\<close> and \<open>\r\<close> to
  \<open>\n\<close>; \<open>readlines\<close> cuts after every \<open>\n\<close> and keeps it.
\<close>

fun universal_newlines :: "string \<Rightarrow> string" where
  "universal_newlines [] = []"
| "universal_newlines [c] = (if c = CHR 0x0D then [CHR 0x0A] else [c])"
| "universal_newlines (c # d # ds) =
     (if c = CHR 0x0D \<and> d = CHR 0x0A then CHR 0x0A # universal_newlines ds
      else if c = CHR 0x0D then CHR 0x0A # universal_newlines (d # ds)
      else c # universal_newlines (d # ds))"

fun readlines_acc :: "string \<Rightarrow> string \<Rightarrow> string list" where
  "readlines_acc cur [] = (if cur = [] then [] else [cur])"
| "readlines_acc cur (c # cs) =
     (if c = CHR 0x0A then (cur @ [c]) # readlines_acc [] cs
      else readlines_acc (cur @ [c]) cs)"

definition readlines :: "string \<Rightarrow> string list" where
  "readlines s = readlines_acc [] (universal_newlines s)"

definition text_file :: "string \<Rightarrow> file_view" where
  "text_file content =
     \<lparr>fv_getsize = Inr (length content),
      fv_open = None,
      fv_seek = (\<lambda>pos. None),
      fv_readlines = (\<lambda>pos. Inr (readlines (drop pos content)))\<rparr>"

definition missing_file :: file_view where
  "missing_file =
     \<lparr>fv_getsize = Inl FileNotFoundError,
      fv_open = Some FileNotFoundError,
      fv_seek = (\<lambda>pos. None),
      fv_readlines = (\<lambda>pos. Inl FileNotFoundError)\<rparr>"

text \<open>A file system with one directory \<open>d\<close> holding the named text files.\<close>

definition one_dir :: "string \<Rightarrow> (string \<times> string) list \<Rightarrow> filesystem" where
  "one_dir d files =
     \<lparr>path_exists = (\<lambda>p. p = d \<or> p \<in> set (map (\<lambda>nc. path_join d (fst nc)) files)),
      listdir = (\<lambda>p. if p = d then Inr (map fst files) else Inl NotADirectoryError),
      file_at = (\<lambda>p. case map_of (map (\<lambda>nc. (path_join d (fst nc), snd nc)) files) p of
                        Some content \<Rightarrow> text_file content
                      | None \<Rightarrow> missing_file)\<rparr>"

section \<open>The metrics sampler: \<open>SystemMetrics\<close>\<close>

text \<open>
  What \<open>psutil\<close> answers in one cycle. Each query may raise. Percentages are floating
  point numbers, kept abstract as the type \<open>'f\<close>; the memory and disk tuples are read
  at \<open>percent\<close>, \<open>used\<close> and \<open>total\<close> (bytes).
\<close>

record 'f usage =
  u_percent :: 'f
  u_used :: int
  u_total :: int

record net_info =
  bytes_sent :: nat
  bytes_recv :: nat
  packets_sent :: nat
  packets_recv :: nat

record 'f psutil =
  q_cpu_percent :: "py_exception + 'f"
  q_cpu_count :: "py_exception + nat"
  q_virtual_memory :: "py_exception + 'f usage"
  q_disk_usage :: "py_exception + 'f usage"
  q_pids :: "py_exception + nat list"
  q_net_io_counters :: "py_exception + net_info"

text \<open>The snapshot dictionary and its nested dictionaries.\<close>

record 'f cpu_info =
  cpu_percent :: 'f
  cpu_count :: nat

record 'f volume_info =
  vol_percent :: 'f
  used_gb :: 'f
  total_gb :: 'f

record 'f snapshot =
  snap_timestamp :: nat
  cpu :: "'f cpu_info"
  memory :: "'f volume_info"
  disk :: "'f volume_info"
  processes :: nat
  network :: net_info

text \<open>
  \<open>get_current_metrics\<close>. The queries run in the order of the source inside one \<open>try\<close>
  whose handler logs and returns \<open>None\<close>; only the network query has a \<open>try\<close> of its
  own, which replaces the counters by zeros. \<open>gb\<close> is the floating point computation
  \<open>round(bytes / (1024**3), 2)\<close>, \<open>now\<close> the reading of the clock.
\<close>

definition get_current_metrics :: "(int \<Rightarrow> 'f) \<Rightarrow> nat \<Rightarrow> 'f psutil \<Rightarrow> 'f snapshot option" where
  "get_current_metrics gb now host =
     (case q_cpu_percent host of
        Inl e \<Rightarrow> None
      | Inr cpu_pct \<Rightarrow>
     (case q_cpu_count host of
        Inl e \<Rightarrow> None
      | Inr cpu_n \<Rightarrow>
     (case q_virtual_memory host of
        Inl e \<Rightarrow> None
      | Inr mem \<Rightarrow>
     (case q_disk_usage host of
        Inl e \<Rightarrow> None
      | Inr dsk \<Rightarrow>
     (case q_pids host of
        Inl e \<Rightarrow> None
      | Inr ps \<Rightarrow>
          (let network_data =
                 (case q_net_io_counters host of
                    Inr net \<Rightarrow> net
                  | Inl e \<Rightarrow>
                      \<lparr>bytes_sent = 0, bytes_recv = 0, packets_sent = 0, packets_recv = 0\<rparr>)
           in Some
                \<lparr>snap_timestamp = now,
                 cpu = \<lparr>cpu_percent = cpu_pct, cpu_count = cpu_n\<rparr>,
                 memory = \<lparr>vol_percent = u_percent mem, used_gb = gb (u_used mem),
                           total_gb = gb (u_total mem)\<rparr>,
                 disk = \<lparr>vol_percent = u_percent dsk, used_gb = gb (u_used dsk),
                         total_gb = gb (u_total dsk)\<rparr>,
                 processes = length ps,
                 network = network_data\<rparr>))))))"

record 'f SystemMetrics =
  max_history :: nat
  metrics_history :: "'f snapshot list"
  is_collecting :: bool

definition SystemMetrics_init :: "nat \<Rightarrow> 'f SystemMetrics" where
  "SystemMetrics_init n = \<lparr>max_history = n, metrics_history = [], is_collecting = False\<rparr>"

text \<open>
  One pass of the body of the \<open>while\<close> loop of \<open>collect_metrics_continuously\<close>: a snapshot
  that was built (a non-empty dictionary is true) is appended to the history.
\<close>

definition collect_once ::
  "(int \<Rightarrow> 'f) \<Rightarrow> 'f SystemMetrics \<Rightarrow> nat \<times> 'f psutil \<Rightarrow> 'f SystemMetrics" where
  "collect_once gb sm tick =
     (case get_current_metrics gb (fst tick) (snd tick) of
        Some metrics \<Rightarrow>
          sm\<lparr>metrics_history := deque_append (max_history sm) (metrics_history sm) metrics\<rparr>
      | None \<Rightarrow> sm)"

text \<open>
  The loop, run over the clock readings and host answers of finitely many successive
  cycles; it stops at the first cycle that finds \<open>is_collecting\<close> false.
\<close>

fun collect_metrics_continuously ::
  "(int \<Rightarrow> 'f) \<Rightarrow> 'f SystemMetrics \<Rightarrow> (nat \<times> 'f psutil) list \<Rightarrow> 'f SystemMetrics" where
  "collect_metrics_continuously gb sm [] = sm"
| "collect_metrics_continuously gb sm (tick # ticks) =
     (if is_collecting sm then collect_metrics_continuously gb (collect_once gb sm tick) ticks
      else sm)"

section \<open>Example scenarios\<close>

text \<open>
  Names for the concrete states and files used where a statement is evaluated: a handler
  started on an empty store of capacity 200, the path of one log file, and the file
  system holding that file with a given content.
\<close>

abbreviation fresh_handler :: LogFileHandler where
  "fresh_handler \<equiv> LogFileHandler_init (LogCollector_init 200)"

abbreviation app_log :: string where
  "app_log \<equiv> ''logs/app.log''"

abbreviation logs_with :: "string \<Rightarrow> filesystem" where
  "logs_with content \<equiv> one_dir ''logs'' [(''app.log'', content)]"

text \<open>A file that can be opened but whose content does not decode.\<close>

abbreviation undecodable :: filesystem where
  "undecodable \<equiv>
     \<lparr>path_exists = (\<lambda>p. True),
      listdir = (\<lambda>p. Inr []),
      file_at = (\<lambda>p. \<lparr>fv_getsize = Inr 5, fv_open = None, fv_seek = (\<lambda>pos. None),
                         fv_readlines = (\<lambda>pos. Inl UnicodeDecodeError)\<rparr>)\<rparr>"

section \<open>Facts about characters and case\<close>

lemma char_cases: obtains n :: nat where "c = char_of n" "n < 256"
proof -
  have "c = char_of (of_char c :: nat)" by simp
  moreover have "(of_char c :: nat) < 256" by simp
  ultimately show ?thesis using that by blast
qed

lemma of_char_char_of_small: "n < 256 \<Longrightarrow> (of_char (char_of (n::nat)) :: nat) = n"
  by (simp add: take_bit_eq_mod)

lemma char_of_eq_small: "n < 256 \<Longrightarrow> m < 256 \<Longrightarrow> (char_of n = char_of m) = (n = (m::nat))"
  by (simp add: char_of_eq_iff take_bit_eq_mod)

lemma upper_char_of: "n < 256 \<Longrightarrow> upper_char (char_of (n::nat)) = (if 97 \<le> n \<and> n \<le> 122 then char_of (n - 32) else char_of n)"
  by (simp add: upper_char_def of_char_char_of_small Let_def)

lemma lower_char_of: "n < 256 \<Longrightarrow> lower_char (char_of (n::nat)) = (if 65 \<le> n \<and> n \<le> 90 then char_of (n + 32) else char_of n)"
  by (simp add: lower_char_def of_char_char_of_small Let_def)

lemma lower_eq_iff_upper_eq: "(lower_char a = lower_char b) = (upper_char a = upper_char b)"
proof -
  obtain n :: nat where a: "a = char_of n" "n < 256" by (rule char_cases)
  obtain m :: nat where b: "b = char_of m" "m < 256" by (rule char_cases)
  show ?thesis using a b
    by (auto simp add: upper_char_of lower_char_of char_of_eq_small)
qed



section \<open>The classifier agrees with the specification's reading\<close>

lemma ci_prefix_iff: "ci_prefix a s = prefix (upper a) (upper s)"
  by (induction a s rule: ci_prefix.induct) (simp_all add: upper_def lower_eq_iff_upper_eq)

lemma ci_prefix_take: "ci_prefix a s \<Longrightarrow> upper (take (length a) s) = upper a"
  by (induction a s rule: ci_prefix.induct) (simp_all add: upper_def lower_eq_iff_upper_eq)

lemma match_alts_None: "(match_alts alts s = None) = (\<forall>a\<in>set alts. \<not> ci_prefix a s)"
  by (induction alts) simp_all

lemma match_alts_Some:
  "match_alts alts s = Some g \<Longrightarrow> \<exists>a\<in>set alts. ci_prefix a s \<and> upper g = upper a"
  by (induction alts) (auto simp add: ci_prefix_take split: if_splits)

lemma match_here_None:
  "(match_here alts s = None) =
     (match_alts alts s = None \<and> (\<forall>t. s = CHR ''['' # t \<longrightarrow> match_alts alts t = None))"
  by (auto simp add: match_here_def split: list.splits option.splits)

lemma match_here_Some:
  "match_here alts s = Some g \<Longrightarrow>
     \<exists>t\<in>set (suffixes s). \<exists>a\<in>set alts. ci_prefix a t \<and> upper g = upper a"
  by (auto simp add: match_here_def split: list.splits option.splits if_splits
      dest!: match_alts_Some)

lemma re_search_None:
  "(re_search alts s = None) = (\<forall>t\<in>set (suffixes s). match_alts alts t = None)"
proof (induction s)
  case Nil
  then show ?case by (simp add: match_here_def)
next
  case (Cons c cs)
  have mem: "cs \<in> set (suffixes cs)" by simp
  have "(re_search alts (c # cs) = None) =
          (match_here alts (c # cs) = None \<and> re_search alts cs = None)"
    by (simp split: option.splits)
  then show ?case using Cons mem
    by (auto simp add: match_here_None)
qed

lemma re_search_Some:
  "re_search alts s = Some g \<Longrightarrow>
     \<exists>t\<in>set (suffixes s). \<exists>a\<in>set alts. ci_prefix a t \<and> upper g = upper a"
proof (induction s)
  case Nil
  then show ?case using match_here_Some [of alts "[]" g] by simp
next
  case (Cons c cs)
  show ?case
  proof (cases "match_here alts (c # cs)")
    case None
    with Cons show ?thesis by auto
  next
    case (Some h)
    with Cons.prems have "match_here alts (c # cs) = Some g" by simp
    then show ?thesis by (rule match_here_Some)
  qed
qed

lemma suffixes_map: "suffixes (map f xs) = map (map f) (suffixes xs)"
  by (induction xs) simp_all

lemma mentions_iff:
  "upper tok = tok \<Longrightarrow> mentions tok line = (\<exists>t\<in>set (suffixes line). ci_prefix tok t)"
  by (auto simp add: mentions_def list_ex_iff upper_def suffixes_map ci_prefix_iff)

lemma re_search_None_mentions:
  "\<forall>a\<in>set alts. upper a = a \<Longrightarrow>
     (re_search alts s = None) = (\<forall>a\<in>set alts. \<not> mentions a s)"
  by (auto simp add: re_search_None match_alts_None mentions_iff)

lemma re_search_Some_group:
  "\<forall>a\<in>set alts. upper a = a \<Longrightarrow> re_search alts s = Some g \<Longrightarrow> upper g \<in> set alts"
  by (auto dest!: re_search_Some)

lemma upper_tokens:
  "upper ''ERROR'' = ''ERROR''" "upper ''CRITICAL'' = ''CRITICAL''" "upper ''FATAL'' = ''FATAL''"
  "upper ''WARN'' = ''WARN''" "upper ''WARNING'' = ''WARNING''"
  "upper ''INFO'' = ''INFO''" "upper ''INFORMATION'' = ''INFORMATION''"
  "upper ''DEBUG'' = ''DEBUG''" "upper ''TRACE'' = ''TRACE''"
  by code_simp+

lemma classify_step:
  assumes up: "\<forall>a\<in>set alts. upper a = a"
    and lv: "\<forall>a\<in>set alts. level_of_group a = Some l"
  shows "classify_patterns (alts # rest) line =
           (if \<exists>a\<in>set alts. mentions a line then l else classify_patterns rest line)"
proof (cases "re_search alts line")
  case None
  then show ?thesis using re_search_None_mentions [OF up, of line] by simp
next
  case (Some g)
  then have "upper g \<in> set alts" by (rule re_search_Some_group [OF up])
  moreover have "\<exists>a\<in>set alts. mentions a line"
    using Some re_search_None_mentions [OF up, of line] by auto
  ultimately show ?thesis using Some lv by auto
qed

lemma extract_log_level_spec: "extract_log_level line = spec_classify line"
  unfolding extract_log_level_def patterns_def spec_classify_def
  by (subst classify_step [where l = "''ERROR''"], simp add: upper_tokens, simp add: level_of_group_def,
      subst classify_step [where l = "''WARNING''"], simp add: upper_tokens, simp add: level_of_group_def,
      subst classify_step [where l = "''INFO''"], simp add: upper_tokens, simp add: level_of_group_def,
      subst classify_step [where l = "''DEBUG''"], simp add: upper_tokens, simp add: level_of_group_def,
      simp)





section \<open>Runs of appends\<close>

lemma add_all_snoc:
  "add_all c (inputs @ [inp]) = add_log_entry (add_all c inputs) (fst inp) (snd inp)"
  by (simp add: add_all_def case_prod_unfold)

lemma add_all_Nil: "add_all c [] = c"
  by (simp add: add_all_def)

lemma entries_of_snoc:
  "entries_of (inputs @ [inp]) = entries_of inputs @ [entry_of (length inputs) inp]"
  by (simp add: entries_of_def enumerate_append_eq)

lemma length_entries_of: "length (entries_of inputs) = length inputs"
  by (simp add: entries_of_def)

lemma deque_append_drop:
  "length xs = n \<Longrightarrow>
     deque_append C (drop (n - C) xs) x = drop (Suc n - C) (xs @ [x])"
proof (cases "C \<le> n")
  case True
  assume len: "length xs = n"
  have "drop (n - C) xs @ [x] = drop (n - C) (xs @ [x])"
    using len by simp
  then have "tl (drop (n - C) xs @ [x]) = drop (Suc (n - C)) (xs @ [x])"
    by (simp only: drop_Suc tl_drop)
  also have "\<dots> = drop (Suc n - C) (xs @ [x])"
    using True by (simp only: Suc_diff_le)
  finally show ?thesis using True len by (simp add: deque_append_def Let_def)
next
  case False
  assume len: "length xs = n"
  then show ?thesis using False by (simp add: deque_append_def Let_def)
qed

lemma max_entries_add_log_entry: "max_entries (add_log_entry c p l) = max_entries c"
  by (simp add: add_log_entry_def Let_def)

lemma clock_add_log_entry: "clock (add_log_entry c p l) = clock c + 1"
  by (simp add: add_log_entry_def Let_def)

lemma log_entries_add_log_entry:
  "log_entries (add_log_entry c p l) =
     deque_append (max_entries c) (log_entries c)
       \<lparr>timestamp = clock c, file_name = basename p, full_path = p, message = l,
        level = extract_log_level l\<rparr>"
  by (simp add: add_log_entry_def Let_def)

lemma run_shape:
  "max_entries (add_all (LogCollector_init C) inputs) = C \<and>
   clock (add_all (LogCollector_init C) inputs) = length inputs \<and>
   log_entries (add_all (LogCollector_init C) inputs) =
     drop (length inputs - C) (entries_of inputs)"
proof (induction inputs rule: rev_induct)
  case Nil
  then show ?case by (simp add: add_all_Nil LogCollector_init_def entries_of_def)
next
  case (snoc inp inputs)
  then show ?case
    by (simp add: add_all_snoc max_entries_add_log_entry clock_add_log_entry
        log_entries_add_log_entry entries_of_snoc
        deque_append_drop [OF length_entries_of] entry_of_def)
qed

lemma level_cases:
  "extract_log_level l = ''ERROR'' \<or> extract_log_level l = ''WARNING'' \<or>
   extract_log_level l = ''INFO'' \<or> extract_log_level l = ''DEBUG'' \<or>
   extract_log_level l = ''UNKNOWN''"
  by (simp add: extract_log_level_spec spec_classify_def)

lemma count_keys:
  "lower ''ERROR'' @ ''_count'' = ''error_count''"
  "lower ''WARNING'' @ ''_count'' = ''warning_count''"
  "lower ''INFO'' @ ''_count'' = ''info_count''"
  "lower ''DEBUG'' @ ''_count'' = ''debug_count''"
  "lower ''UNKNOWN'' @ ''_count'' = ''unknown_count''"
  by code_simp+

lemma stats_step:
  assumes "log_stats c ''total_entries'' = Some t"
    "log_stats c ''error_count'' = Some e"
    "log_stats c ''warning_count'' = Some w"
    "log_stats c ''info_count'' = Some i"
    "log_stats c ''debug_count'' = Some d"
    "log_stats c ''unknown_count'' = Some u"
    "t = e + w + i + d + u"
  shows "\<exists>e' w' i' d' u'.
    log_stats (add_log_entry c p l) ''total_entries'' = Some (Suc t) \<and>
    log_stats (add_log_entry c p l) ''error_count'' = Some e' \<and>
    log_stats (add_log_entry c p l) ''warning_count'' = Some w' \<and>
    log_stats (add_log_entry c p l) ''info_count'' = Some i' \<and>
    log_stats (add_log_entry c p l) ''debug_count'' = Some d' \<and>
    log_stats (add_log_entry c p l) ''unknown_count'' = Some u' \<and>
    Suc t = e' + w' + i' + d' + u'"
  using level_cases [of l] assms
  by (elim disjE) (simp_all add: add_log_entry_def Let_def dict_incr_def count_keys)

lemma stats_run:
  "\<exists>e w i d u.
    log_stats (add_all (LogCollector_init C) inputs) ''total_entries'' = Some (length inputs) \<and>
    log_stats (add_all (LogCollector_init C) inputs) ''error_count'' = Some e \<and>
    log_stats (add_all (LogCollector_init C) inputs) ''warning_count'' = Some w \<and>
    log_stats (add_all (LogCollector_init C) inputs) ''info_count'' = Some i \<and>
    log_stats (add_all (LogCollector_init C) inputs) ''debug_count'' = Some d \<and>
    log_stats (add_all (LogCollector_init C) inputs) ''unknown_count'' = Some u \<and>
    length inputs = e + w + i + d + u"
proof (induction inputs rule: rev_induct)
  case Nil
  then show ?case by (simp add: add_all_Nil LogCollector_init_def)
next
  case (snoc inp inputs)
  then obtain e w i d u where h:
    "log_stats (add_all (LogCollector_init C) inputs) ''total_entries'' = Some (length inputs)"
    "log_stats (add_all (LogCollector_init C) inputs) ''error_count'' = Some e"
    "log_stats (add_all (LogCollector_init C) inputs) ''warning_count'' = Some w"
    "log_stats (add_all (LogCollector_init C) inputs) ''info_count'' = Some i"
    "log_stats (add_all (LogCollector_init C) inputs) ''debug_count'' = Some d"
    "log_stats (add_all (LogCollector_init C) inputs) ''unknown_count'' = Some u"
    "length inputs = e + w + i + d + u"
    by blast
  show ?case using stats_step [OF h, of "fst inp" "snd inp"]
    by (simp add: add_all_snoc)
qed

section \<open>The claims about the classifier and the store\<close>


text \<open>
  C5. After more appends than the capacity \<open>C\<close>, a store created with capacity \<open>C\<close>
  holds exactly the entries of the last \<open>C\<close> appends, oldest first; \<open>total_entries\<close> is
  the number of appends performed, and one more append makes it one more, whether or
  not that append evicts an entry.
\<close>

theorem store_retains_last_C_and_counts_all:
  assumes "C < length inputs"
  shows "log_entries (add_all (LogCollector_init C) inputs) =
           drop (length inputs - C) (entries_of inputs) \<and>
         length (log_entries (add_all (LogCollector_init C) inputs)) = C \<and>
         counter (add_all (LogCollector_init C) inputs) ''total_entries'' =
           Some (length inputs) \<and>
         counter (add_log_entry (add_all (LogCollector_init C) inputs) p l) ''total_entries'' =
           Some (length inputs + 1)"
proof -
  have shape: "log_entries (add_all (LogCollector_init C) inputs) =
      drop (length inputs - C) (entries_of inputs)"
    using run_shape [of C inputs] by simp
  have len: "length (log_entries (add_all (LogCollector_init C) inputs)) = C"
    using assms by (simp add: shape length_entries_of)
  have tot: "counter (add_all (LogCollector_init C) inputs) ''total_entries'' =
      Some (length inputs)"
    using stats_run [of C inputs] by (auto simp add: counter_def get_log_stats_def)
  have "add_log_entry (add_all (LogCollector_init C) inputs) p l =
      add_all (LogCollector_init C) (inputs @ [(p, l)])"
    by (simp add: add_all_snoc)
  then have nxt: "counter (add_log_entry (add_all (LogCollector_init C) inputs) p l)
      ''total_entries'' = Some (length inputs + 1)"
    using stats_run [of C "inputs @ [(p, l)]"]
    by (auto simp add: counter_def get_log_stats_def)
  show ?thesis using shape len tot nxt by simp
qed

theorem store_retains_last_C_and_counts_all_witness:
  "(2::nat) < length [(''a.log'', ''[INFO] a''), (''a.log'', ''[ERROR] b''), (''a.log'', ''c'')] \<and>
   map message (log_entries (add_all (LogCollector_init 2)
     [(''a.log'', ''[INFO] a''), (''a.log'', ''[ERROR] b''), (''a.log'', ''c'')])) =
     [''[ERROR] b'', ''c''] \<and>
   counter (add_all (LogCollector_init 2)
     [(''a.log'', ''[INFO] a''), (''a.log'', ''[ERROR] b''), (''a.log'', ''c'')])
     ''total_entries'' = Some 3"
proof -
  have h: "(2::nat) < length [(''a.log'', ''[INFO] a''), (''a.log'', ''[ERROR] b''), (''a.log'', ''c'')]"
    by simp
  show ?thesis
    using store_retains_last_C_and_counts_all [OF h, of "[]" "[]"]
    by (simp add: entries_of_def entry_of_def)
qed


section \<open>The recent-logs query\<close>

lemma py_slice_tail:
  assumes "0 < n"
  shows "py_slice_from (- n) xs = drop (length xs - nat n) xs"
proof -
  have "nat (int (length xs) + - n) = length xs - nat n"
    using assms by linarith
  then show ?thesis using assms by (simp add: py_slice_from_def)
qed

lemma get_recent_logs_None_limit:
  "get_recent_logs c None None = log_entries c"
  "get_recent_logs c None (Some f) =
     (if f = [] then log_entries c else filter (\<lambda>e. level e = upper f) (log_entries c))"
  by (simp_all add: get_recent_logs_def)

lemma get_recent_logs_pos:
  "0 < n \<Longrightarrow> get_recent_logs c (Some n) lf =
     drop (length (get_recent_logs c None lf) - nat n) (get_recent_logs c None lf)"
  by (simp add: get_recent_logs_def py_slice_tail Let_def split: option.splits)

lemma diff_diff_le: "(m::nat) - (m - k) \<le> k"
  by arith

text \<open>
  C3, as the code has it. A call of the recent-logs query that leaves the limit out binds
  the default limit 10: it returns the last 10 entries of the (possibly filtered) ring
  contents, which are all of them only when there are at most 10. All entries of the
  (possibly filtered) contents are returned when the limit is passed as \<open>None\<close>.
\<close>

theorem recent_logs_default_limit_is_ten:
  "get_recent_logs_call c Omitted lf =
     drop (length (get_recent_logs_call c (Passed None) lf) - 10)
       (get_recent_logs_call c (Passed None) lf) \<and>
   get_recent_logs_call c (Passed None) Omitted = log_entries c \<and>
   get_recent_logs_call c (Passed None) (Passed None) = log_entries c \<and>
   get_recent_logs_call c (Passed None) (Passed (Some f)) =
     (if f = [] then log_entries c else filter (\<lambda>e. level e = upper f) (log_entries c))"
  using get_recent_logs_pos [of 10 c]
  by (simp add: get_recent_logs_call_def get_recent_logs_None_limit)

text \<open>
  C3 as stated fails: with 11 entries in a store of capacity 200, the query called
  without a limit returns 10 entries, not all 11.
\<close>

theorem recent_logs_without_limit_truncates:
  "length (log_entries (add_all (LogCollector_init 200) (replicate 11 (''app.log'', ''x'')))) = 11 \<and>
   length (get_recent_logs_call (add_all (LogCollector_init 200) (replicate 11 (''app.log'', ''x'')))
      Omitted Omitted) = 10 \<and>
   get_recent_logs_call (add_all (LogCollector_init 200) (replicate 11 (''app.log'', ''x'')))
      Omitted Omitted \<noteq>
     log_entries (add_all (LogCollector_init 200) (replicate 11 (''app.log'', ''x'')))"
proof -
  let ?c = "add_all (LogCollector_init 200) (replicate 11 (''app.log'', ''x''))"
  have len: "length (log_entries ?c) = 11"
    using run_shape [of 200 "replicate 11 (''app.log'', ''x'')"]
    by (simp add: length_entries_of)
  have r: "get_recent_logs_call ?c Omitted Omitted = drop 1 (log_entries ?c)"
    using get_recent_logs_pos [of 10 ?c None] len
    by (simp add: get_recent_logs_call_def get_recent_logs_None_limit)
  have len2: "length (get_recent_logs_call ?c Omitted Omitted) = 10"
    using len by (simp add: r)
  have "length (get_recent_logs_call ?c Omitted Omitted) \<noteq> length (log_entries ?c)"
    by (simp add: len len2)
  then have "get_recent_logs_call ?c Omitted Omitted \<noteq> log_entries ?c"
    by (rule contrapos_nn) (erule arg_cong)
  then show ?thesis using len len2 by simp
qed

text \<open>
  C7, as the code has it. For every store state, every positive limit and every
  non-empty level filter, the query filters the ring contents by level first and then
  takes the tail of at most limit entries: the result is the last limit entries of the
  filtered contents, all of the requested level, at most limit of them, in the order of
  the ring (oldest first), and holds entries of the ring only. Without a filter the
  result is the tail of the ring contents.
\<close>

theorem recent_logs_filter_then_tail:
  assumes "0 < n"
  shows "get_recent_logs c (Some n) None =
           drop (length (log_entries c) - nat n) (log_entries c) \<and>
         length (get_recent_logs c (Some n) lf) \<le> nat n \<and>
         subseq (get_recent_logs c (Some n) lf) (log_entries c) \<and>
         (f \<noteq> [] \<longrightarrow>
            get_recent_logs c (Some n) (Some f) =
              drop (length (filter (\<lambda>e. level e = upper f) (log_entries c)) - nat n)
                (filter (\<lambda>e. level e = upper f) (log_entries c)) \<and>
            suffix (get_recent_logs c (Some n) (Some f))
              (filter (\<lambda>e. level e = upper f) (log_entries c)) \<and>
            (\<forall>e\<in>set (get_recent_logs c (Some n) (Some f)). level e = upper f))"
proof -
  let ?F = "filter (\<lambda>e. level e = upper f) (log_entries c)"
  have a: "get_recent_logs c (Some n) None =
      drop (length (log_entries c) - nat n) (log_entries c)"
    using assms by (simp only: get_recent_logs_pos get_recent_logs_None_limit)
  have sub: "subseq (get_recent_logs c None lf) (log_entries c)"
    by (cases lf) (simp_all add: get_recent_logs_None_limit)
  have "subseq (drop (length (get_recent_logs c None lf) - nat n) (get_recent_logs c None lf))
      (get_recent_logs c None lf)"
    by (rule suffix_imp_subseq) (rule suffix_drop)
  then have "subseq (get_recent_logs c (Some n) lf) (get_recent_logs c None lf)"
    using assms by (simp only: get_recent_logs_pos)
  then have s: "subseq (get_recent_logs c (Some n) lf) (log_entries c)"
    using sub by (rule subseq_order.order_trans)
  have "length (drop (length (get_recent_logs c None lf) - nat n) (get_recent_logs c None lf))
      \<le> nat n"
    by (simp only: length_drop diff_diff_le)
  then have l: "length (get_recent_logs c (Some n) lf) \<le> nat n"
    using assms by (simp only: get_recent_logs_pos)
  have e: "get_recent_logs c (Some n) (Some f) = drop (length ?F - nat n) ?F" if "f \<noteq> []"
    using assms that by (simp only: get_recent_logs_pos get_recent_logs_None_limit if_False)
  have su: "suffix (drop (length ?F - nat n) ?F) ?F"
    by (rule suffix_drop)
  have "set (drop (length ?F - nat n) ?F) \<subseteq> set ?F"
    by (rule set_drop_subset)
  then have al: "\<forall>e\<in>set (drop (length ?F - nat n) ?F). level e = upper f"
    by auto
  have f1: "f \<noteq> [] \<Longrightarrow> get_recent_logs c (Some n) (Some f) = drop (length ?F - nat n) ?F"
    by (rule e)
  have f2: "f \<noteq> [] \<Longrightarrow> suffix (get_recent_logs c (Some n) (Some f)) ?F"
    by (subst e) (assumption, rule su)
  have f3: "f \<noteq> [] \<Longrightarrow> \<forall>e\<in>set (get_recent_logs c (Some n) (Some f)). level e = upper f"
    by (subst e) (assumption, rule al)
  show ?thesis
    apply (intro conjI impI)
         apply (rule a)
        apply (rule l)
       apply (rule s)
      apply (erule f1)
     apply (erule f2)
    apply (erule f3)
    done
qed

theorem recent_logs_filter_then_tail_witness:
  "(0::int) < 2 \<and> ''error'' \<noteq> [] \<and>
   map message (get_recent_logs
     (add_all (LogCollector_init 3)
        [(''a.log'', ''[ERROR] one''), (''a.log'', ''[ERROR] two''), (''a.log'', ''[INFO] three''),
         (''a.log'', ''[ERROR] four'')])
     (Some 2) (Some ''error'')) = [''[ERROR] two'', ''[ERROR] four'']"
proof -
  have h: "(0::int) < 2" by simp
  have ev: "filter (\<lambda>e. level e = upper ''error'')
      (log_entries (add_all (LogCollector_init 3)
        [(''a.log'', ''[ERROR] one''), (''a.log'', ''[ERROR] two''), (''a.log'', ''[INFO] three''),
         (''a.log'', ''[ERROR] four'')])) =
     [\<lparr>timestamp = 1, file_name = ''a.log'', full_path = ''a.log'', message = ''[ERROR] two'',
        level = ''ERROR''\<rparr>,
      \<lparr>timestamp = 3, file_name = ''a.log'', full_path = ''a.log'', message = ''[ERROR] four'',
        level = ''ERROR''\<rparr>]"
    by code_simp
  show ?thesis
    using recent_logs_filter_then_tail [OF h, of
        "add_all (LogCollector_init 3)
          [(''a.log'', ''[ERROR] one''), (''a.log'', ''[ERROR] two''), (''a.log'', ''[INFO] three''),
           (''a.log'', ''[ERROR] four'')]" None "''error''"]
    by (simp add: ev)
qed

text \<open>
  C7 as stated fails for the limit 0 and for the empty filter string, both of which
  Python's truth tests take as absent: with one INFO entry in the store, the query with
  limit 0 and the empty string as filter returns that entry, which is more than 0
  entries and not of the level asked for.
\<close>

theorem recent_logs_zero_limit_and_empty_filter:
  "\<not> int (length (get_recent_logs (add_all (LogCollector_init 5) [(''a.log'', ''[INFO] up'')])
        (Some 0) (Some []))) \<le> 0 \<and>
   map level (get_recent_logs (add_all (LogCollector_init 5) [(''a.log'', ''[INFO] up'')])
        (Some 0) (Some [])) = [''INFO''] \<and>
   upper [] \<noteq> ''INFO''"
  by code_simp

end
